theory Spec2Isabelle
  imports Main "HOL-Library.Word" "HOL-Library.Sublist"
begin

section \<open>JavaScript strings\<close>

text \<open>
  A JavaScript string is a sequence of UTF-16 code units. \<open>str\<close> writes an ASCII
  literal of the source as such a sequence.
\<close>

type_synonym code_unit = "16 word"
type_synonym js_string = "code_unit list"

definition str :: "string \<Rightarrow> js_string" where
  "str s = map (\<lambda>c. of_nat (of_char c)) s"

text \<open>\<open>s.startsWith(pre)\<close>: the first \<open>pre.length\<close> code units of \<open>s\<close> are \<open>pre\<close>.\<close>

definition startsWith :: "js_string \<Rightarrow> js_string \<Rightarrow> bool" where
  "startsWith s pre = (take (length pre) s = pre)"

text \<open>\<open>a || b\<close> on values that are a string or \<open>undefined\<close>: \<open>undefined\<close> and the
  empty string are falsy.\<close>

definition orElse :: "js_string option \<Rightarrow> js_string option \<Rightarrow> js_string option" where
  "orElse a b = (case a of None \<Rightarrow> b | Some v \<Rightarrow> if v = [] then b else Some v)"

text \<open>The same with a string on the right: the result is a string.\<close>

definition orDefault :: "js_string option \<Rightarrow> js_string \<Rightarrow> js_string" where
  "orDefault a d = (case a of None \<Rightarrow> d | Some v \<Rightarrow> if v = [] then d else v)"

section \<open>Path classifier (server.js, \<open>OPEN_PATHS_EXACT\<close> and \<open>isOpenPath\<close>)\<close>

definition OPEN_PATHS_EXACT :: "js_string list" where
  "OPEN_PATHS_EXACT = [str ''/oauth/callback'', str ''/auth/callback'', str ''/callback'']"

definition isOpenPath :: "js_string \<Rightarrow> bool" where
  "isOpenPath path =
     (if path \<in> set OPEN_PATHS_EXACT then True
      else if startsWith path (str ''/oauth/'') then True
      else if startsWith path (str ''/auth/'') then True
      else False)"

section \<open>URL scraper (server.js, \<open>extractUrls\<close>)\<close>

text \<open>
  The regular expression is \<^verbatim>\<open>/https?:\/\/[^\s"')\]]+/g\<close>, without the \<open>u\<close> and \<open>i\<close>
  flags: it works on code units and is case-sensitive.

  \<open>isSpace\<close> is the class \<^verbatim>\<open>\s\<close> of ECMAScript: the white space code points
  (TAB, VT, FF, SP, NBSP, ZWNBSP and the Unicode space separators) and the line terminators
  (LF, CR, LS, PS).
\<close>

definition isSpace :: "code_unit \<Rightarrow> bool" where
  "isSpace c =
     (c = 0x09 \<or> c = 0x0A \<or> c = 0x0B \<or> c = 0x0C \<or> c = 0x0D \<or> c = 0x20 \<or> c = 0xA0
      \<or> c = 0x1680 \<or> (0x2000 \<le> c \<and> c \<le> 0x200A) \<or> c = 0x2028 \<or> c = 0x2029
      \<or> c = 0x202F \<or> c = 0x205F \<or> c = 0x3000 \<or> c = 0xFEFF)"

text \<open>The negated class \<^verbatim>\<open>[^\s"')\]]\<close>.\<close>

definition urlChar :: "code_unit \<Rightarrow> bool" where
  "urlChar c = (\<not> (isSpace c \<or> c = 0x22 \<or> c = 0x27 \<or> c = 0x29 \<or> c = 0x5D))"

text \<open>
  \<open>matchBody\<close> is the rest of the pattern after the scheme, \<^verbatim>\<open>:\/\/[^\s"')\]]+\<close>, tried at
  the head of \<open>xs\<close>: the literal \<open>://\<close>, then the longest run of one or more \<open>urlChar\<close>
  (the quantifier is greedy and nothing follows it). The result is the matched text and the
  input after it.
\<close>

definition matchBody :: "js_string \<Rightarrow> (js_string \<times> js_string) option" where
  "matchBody xs =
     (if startsWith xs (str ''://'') then
        (let r = drop 3 xs in
         if takeWhile urlChar r = [] then None
         else Some (str ''://'' @ takeWhile urlChar r, dropWhile urlChar r))
      else None)"

text \<open>
  \<open>matchAt\<close> tries the whole pattern at the head of \<open>xs\<close>: the literal \<open>http\<close>, then the
  greedy optional \<open>s\<close> (first with the \<open>s\<close> consumed, and when the rest fails, without it),
  then \<open>matchBody\<close>.
\<close>

definition matchAt :: "js_string \<Rightarrow> (js_string \<times> js_string) option" where
  "matchAt xs =
     (if startsWith xs (str ''http'') then
        (let r = drop 4 xs in
         case (case r of [] \<Rightarrow> None | c # r' \<Rightarrow> if c = 0x73 then matchBody r' else None) of
           Some (m, rest) \<Rightarrow> Some (str ''https'' @ m, rest)
         | None \<Rightarrow>
             (case matchBody r of
                Some (m, rest) \<Rightarrow> Some (str ''http'' @ m, rest)
              | None \<Rightarrow> None))
      else None)"

text \<open>
  \<open>matchAll\<close> is the loop of \<open>String.prototype.match\<close> with a global pattern: from the
  current position, the leftmost position where the pattern matches gives the next match,
  and the search goes on after that match (a match is never empty here).
\<close>

function matchAll :: "js_string \<Rightarrow> js_string list" where
  "matchAll [] = []"
| "matchAll (c # cs) =
     (case matchAt (c # cs) of
        Some (m, rest) \<Rightarrow> m # matchAll rest
      | None \<Rightarrow> matchAll cs)"
  by pat_completeness auto
termination
proof (relation "measure length")
  show "wf (measure length)" by simp
next
  fix c :: code_unit and cs x m rest
  assume a: "matchAt (c # cs) = Some x" and x: "(m, rest) = x"
  have body: "length r \<le> length ys" if "matchBody ys = Some (b, r)" for ys b r
  proof -
    from that have "r = dropWhile urlChar (drop 3 ys)"
      by (auto simp: matchBody_def Let_def split: if_splits)
    then have "length r \<le> length (drop 3 ys)"
      using length_dropWhile_le [of urlChar "drop 3 ys"] by simp
    then show ?thesis by simp
  qed
  define xs where "xs = c # cs"
  from a x consider
      (with_s) b r' where "drop 4 xs = 0x73 # r'" "matchBody r' = Some (b, rest)"
    | (without_s) b where "matchBody (drop 4 xs) = Some (b, rest)"
    unfolding xs_def
    by (auto simp: matchAt_def Let_def split: list.splits if_splits option.splits)
  then have "length rest \<le> length xs - 4"
  proof cases
    case with_s
    have "length rest \<le> length r'"
      by (rule body [OF with_s(2)])
    moreover have "length (drop 4 xs) = Suc (length r')"
      by (simp only: with_s(1) list.size(4))
    ultimately show ?thesis by simp
  next
    case without_s
    have "length rest \<le> length (drop 4 xs)"
      by (rule body [OF without_s])
    then show ?thesis by simp
  qed
  then have "length rest < length (c # cs)"
    by (simp add: xs_def)
  then show "(rest, c # cs) \<in> measure length" by simp
next
  fix c :: code_unit and cs
  show "(cs, c # cs) \<in> measure length" by simp
qed

text \<open>\<open>text.match(re)\<close> is \<open>null\<close> when there is no match, else the array of matches.\<close>

definition matchGlobal :: "js_string \<Rightarrow> js_string list option" where
  "matchGlobal text = (case matchAll text of [] \<Rightarrow> None | m # ms \<Rightarrow> Some (m # ms))"

definition extractUrls :: "js_string \<Rightarrow> js_string list" where
  "extractUrls text = (case matchGlobal text of None \<Rightarrow> [] | Some urls \<Rightarrow> urls)"

text \<open>
  The scraper as the specification words it, to compare \<open>extractUrls\<close> with. \<open>specUrl u\<close>:
  \<open>u\<close> begins with \<open>http://\<close> or \<open>https://\<close> and goes on with one or more characters,
  none of them white space or one of the four closing delimiters. \<open>specUrlAt xs\<close>: such a
  URL begins at the head of \<open>xs\<close>.
\<close>

definition specUrl :: "js_string \<Rightarrow> bool" where
  "specUrl u =
     ((startsWith u (str ''http://'') \<and> drop 7 u \<noteq> [] \<and> list_all urlChar (drop 7 u))
      \<or> (startsWith u (str ''https://'') \<and> drop 8 u \<noteq> [] \<and> list_all urlChar (drop 8 u)))"

definition specUrlAt :: "js_string \<Rightarrow> bool" where
  "specUrlAt xs = list_ex (\<lambda>n. specUrl (take n xs)) [0..<Suc (length xs)]"

section \<open>Login-link cache (server.js, \<open>latestLoginUrl\<close>, \<open>capture\<close>, \<open>/login-link\<close>)\<close>

text \<open>
  The state of the gateway process: the two module variables, \<open>null\<close> being \<open>None\<close>, and
  what the process has done so far: the writes to its standard output and standard error,
  the responses it has sent, the number of child processes it has started (calls of
  \<open>spawn\<close>), and the status it has exited with (\<open>None\<close> while it runs).
\<close>

datatype jvalue = JNull | JBool bool | JString js_string

text \<open>
  A response is either written by the gateway itself (\<open>res.status(n).json(body)\<close>, the
  status being 200 when not set), or it is whatever the upstream process answers to the
  forwarded request: \<open>Proxied True\<close> through the proxy mounted at \<open>/mcp\<close>, which adds the
  marker header, \<open>Proxied False\<close> through the proxy mounted at \<open>/\<close>.
\<close>

datatype response = Json nat "(js_string \<times> jvalue) list" | Proxied bool

record gateway =
  latestLoginUrl :: "js_string option"
  latestLoginUrlSeenAt :: "js_string option"
  stdout :: "js_string list"
  stderr :: "js_string list"
  responses :: "response list"
  spawned :: nat
  exitStatus :: "int option"

text \<open>
  \<open>capture\<close>: \<open>now\<close> is the value of \<open>new Date().toISOString()\<close> at the call, which the
  code reads only when a URL was found.
\<close>

definition capture :: "js_string \<Rightarrow> js_string \<Rightarrow> gateway \<Rightarrow> gateway" where
  "capture now chunk g =
     (let urls = extractUrls chunk in
      if length urls \<noteq> 0 then
        g\<lparr>latestLoginUrl := Some (urls ! (length urls - 1)),
          latestLoginUrlSeenAt := Some now\<rparr>
      else g)"

text \<open>A sequence of chunks, each with the clock reading of its arrival, captured in order.\<close>

fun captureAll :: "(js_string \<times> js_string) list \<Rightarrow> gateway \<Rightarrow> gateway" where
  "captureAll [] g = g"
| "captureAll ((chunk, now) # rest) g = captureAll rest (capture now chunk g)"

text \<open>
  The invariant of the cache: the two variables are \<open>null\<close> together, and the URL is
  never the empty string.
\<close>

definition cacheInv :: "gateway \<Rightarrow> bool" where
  "cacheInv g = ((latestLoginUrl g = None) = (latestLoginUrlSeenAt g = None)
      \<and> latestLoginUrl g \<noteq> Some [])"

text \<open>\<open>!v\<close> for a value that is a string or \<open>null\<close>: \<open>null\<close> and the empty string are falsy.\<close>

definition falsy :: "js_string option \<Rightarrow> bool" where
  "falsy v = (case v of None \<Rightarrow> True | Some x \<Rightarrow> x = [])"

definition toJson :: "js_string option \<Rightarrow> jvalue" where
  "toJson v = (case v of None \<Rightarrow> JNull | Some x \<Rightarrow> JString x)"

definition loginLink :: "gateway \<Rightarrow> response" where
  "loginLink g =
     (if falsy (latestLoginUrl g) then
        Json 404
          [(str ''error'', JString (str ''No login link captured yet.'')),
           (str ''hint'', JString (str
              ''Trigger an MCP connection attempt (call /mcp with your static bearer token), then retry /login-link.''))]
      else
        Json 200
          [(str ''login_url'', toJson (latestLoginUrl g)),
           (str ''seen_at'', toJson (latestLoginUrlSeenAt g))])"

section \<open>Auth gate and routing (server.js, the middleware chain)\<close>

datatype http_method = GET | HEAD | POST | PUT | DELETE | PATCH | OPTIONS

text \<open>\<open>req_method\<close> is \<open>req.method\<close>; \<open>authorization\<close> is \<open>req.headers.authorization\<close>, \<open>None\<close> when the header is absent.\<close>

record request =
  req_method :: http_method
  path :: js_string
  authorization :: "js_string option"

text \<open>The auth middleware: \<open>None\<close> is \<open>next()\<close>, \<open>Some r\<close> is the response it sends.\<close>

definition authGate :: "js_string \<Rightarrow> request \<Rightarrow> response option" where
  "authGate STATIC_BEARER_TOKEN req =
     (if isOpenPath (path req) then None
      else
        (let auth = orDefault (authorization req) [];
             expected = str ''Bearer '' @ STATIC_BEARER_TOKEN
         in if auth \<noteq> expected then
              Some (Json 401 [(str ''error'', JString (str ''Unauthorized''))])
            else None))"

text \<open>
  How the framework matches a request path against the path of a route (\<open>app.get\<close>) or of
  a mount point (\<open>app.use\<close>) is the framework's business and a parameter here. A route
  registered with \<open>app.get\<close> takes the GET requests, and the HEAD requests as well, whose
  path it matches. The mount point \<open>/\<close> takes every request.
\<close>

record express =
  route :: "js_string \<Rightarrow> js_string \<Rightarrow> bool"
  mount :: "js_string \<Rightarrow> js_string \<Rightarrow> bool"

text \<open>
  One such framework, for concrete runs: a route matches its own path only; a mount point
  matches its own path and every path below it.
\<close>

definition exactRouter :: express where
  "exactRouter =
     \<lparr>route = (\<lambda>pattern p. p = pattern),
      mount = (\<lambda>pattern p. p = pattern \<or> startsWith p (pattern @ str ''/''))\<rparr>"

definition getRoute :: "express \<Rightarrow> js_string \<Rightarrow> request \<Rightarrow> bool" where
  "getRoute ex pattern req =
     ((req_method req = GET \<or> req_method req = HEAD) \<and> route ex pattern (path req))"

text \<open>The chain in the order of registration: the two health routes, the auth middleware,
  \<open>/login-link\<close>, the proxy at \<open>/mcp\<close>, the proxy at \<open>/\<close>.\<close>

definition respond :: "express \<Rightarrow> js_string \<Rightarrow> gateway \<Rightarrow> request \<Rightarrow> response" where
  "respond ex token g req =
     (if getRoute ex (str ''/healthz'') req then Json 200 [(str ''ok'', JBool True)]
      else if getRoute ex (str ''/healthz/'') req then Json 200 [(str ''ok'', JBool True)]
      else
        (case authGate token req of
           Some r \<Rightarrow> r
         | None \<Rightarrow>
             if getRoute ex (str ''/login-link'') req then loginLink g
             else if mount ex (str ''/mcp'') (path req) then Proxied True
             else Proxied False))"

section \<open>Supervisor (server.js, \<open>startMcpRemote\<close>) and the event loop\<close>

text \<open>\<open>String(n)\<close> for an integer, and \<open>null\<close> inside a template literal.\<close>

function digits :: "nat \<Rightarrow> js_string" where
  "digits n = (if n < 10 then [of_nat (48 + n)] else digits (n div 10) @ [of_nat (48 + n mod 10)])"
  by pat_completeness auto
termination
  by (relation "measure id") auto

declare digits.simps [simp del]

definition showCode :: "int option \<Rightarrow> js_string" where
  "showCode code =
     (case code of
        None \<Rightarrow> str ''null''
      | Some n \<Rightarrow> if n < 0 then str ''-'' @ digits (nat (- n)) else digits (nat n))"

text \<open>
  The events the process reacts to, one callback at a time: a chunk on the child's standard
  output or standard error (with the clock reading of that moment), a request, and the exit
  of the child with its code (\<open>null\<close> when a signal ended it).
\<close>

datatype event =
    StdoutData js_string js_string
  | StderrData js_string js_string
  | Request request
  | ChildExit "int option"

text \<open>\<open>console.error(line)\<close> writes the line and a newline to standard error.\<close>

definition consoleError :: "js_string \<Rightarrow> gateway \<Rightarrow> gateway" where
  "consoleError line g = g\<lparr>stderr := stderr g @ [line @ [0x0A]]\<rparr>"

text \<open>\<open>process.exit(code ?? 1)\<close> ends the process with that status.\<close>

definition onChildExit :: "int option \<Rightarrow> gateway \<Rightarrow> gateway" where
  "onChildExit code g =
     (consoleError (str ''mcp-remote exited with code '' @ showCode code) g)
       \<lparr>exitStatus := Some (case code of None \<Rightarrow> 1 | Some c \<Rightarrow> c)\<rparr>"

text \<open>A process that has exited runs no callback any more.\<close>

definition step :: "express \<Rightarrow> js_string \<Rightarrow> gateway \<Rightarrow> event \<Rightarrow> gateway" where
  "step ex token g ev =
     (if exitStatus g \<noteq> None then g
      else
        (case ev of
           StdoutData chunk now \<Rightarrow> capture now chunk (g\<lparr>stdout := stdout g @ [chunk]\<rparr>)
         | StderrData chunk now \<Rightarrow> capture now chunk (g\<lparr>stderr := stderr g @ [chunk]\<rparr>)
         | Request req \<Rightarrow> g\<lparr>responses := responses g @ [respond ex token g req]\<rparr>
         | ChildExit code \<Rightarrow> onChildExit code g))"

definition run :: "express \<Rightarrow> js_string \<Rightarrow> gateway \<Rightarrow> event list \<Rightarrow> gateway" where
  "run ex token g evs = foldl (step ex token) g evs"

text \<open>
  \<open>startMcpRemote\<close> starts one child with \<open>spawn\<close> and registers the handlers above; it is
  the only place of the source that starts a child. \<open>initial\<close> is the state once the
  module has loaded: both variables \<open>null\<close>, nothing written or answered, and
  \<open>startMcpRemote()\<close> called once.
\<close>

definition startMcpRemote :: "gateway \<Rightarrow> gateway" where
  "startMcpRemote g = g\<lparr>spawned := Suc (spawned g)\<rparr>"

definition initial :: gateway where
  "initial =
     startMcpRemote
       \<lparr>latestLoginUrl = None, latestLoginUrlSeenAt = None, stdout = [], stderr = [],
        responses = [], spawned = 0, exitStatus = None\<rparr>"

section \<open>Configuration (server.js, \<open>requireEnv\<close> and the module constants)\<close>

datatype startup_error = MissingEnv js_string

definition requireEnv :: "(js_string \<rightharpoonup> js_string) \<Rightarrow> js_string \<Rightarrow> startup_error + js_string" where
  "requireEnv env name =
     (case env name of
        None \<Rightarrow> Inl (MissingEnv name)
      | Some v \<Rightarrow> if v = [] then Inl (MissingEnv name) else Inr v)"

text \<open>
  The string settings read at load time, in the order of the source. The two port settings
  are \<open>parseInt\<close> of a variable or of its default, which never throws; they are left out.
\<close>

record config =
  PUBLIC_BASE_URL :: js_string
  STATIC_BEARER_TOKEN :: js_string
  ROVO_MCP_URL :: js_string

definition loadConfig :: "(js_string \<rightharpoonup> js_string) \<Rightarrow> startup_error + config" where
  "loadConfig env =
     (case requireEnv env (str ''PUBLIC_BASE_URL'') of
        Inl e \<Rightarrow> Inl e
      | Inr base \<Rightarrow>
          (case requireEnv env (str ''STATIC_BEARER_TOKEN'') of
             Inl e \<Rightarrow> Inl e
           | Inr token \<Rightarrow>
               Inr \<lparr>PUBLIC_BASE_URL = base, STATIC_BEARER_TOKEN = token,
                    ROVO_MCP_URL =
                      orDefault
                        (orElse (env (str ''ROVO_MCP_URL'')) (env (str ''ROVO_MCP_SSE_URL'')))
                        (str ''https://mcp.atlassian.com/v1/mcp'')\<rparr>))"

section \<open>Properties\<close>

subsection \<open>Strings\<close>

lemma startsWith_iff: "startsWith s pre \<longleftrightarrow> (\<exists>r. s = pre @ r)"
proof
  assume "startsWith s pre"
  then have "s = pre @ drop (length pre) s"
    unfolding startsWith_def by (metis append_take_drop_id)
  then show "\<exists>r. s = pre @ r" ..
next
  assume "\<exists>r. s = pre @ r"
  then show "startsWith s pre" by (auto simp: startsWith_def)
qed

lemma startsWith_drop: "startsWith s pre \<Longrightarrow> s = pre @ drop (length pre) s"
  unfolding startsWith_def by (metis append_take_drop_id)

lemma length_str [simp]: "length (str s) = length s"
  by (simp add: str_def)

lemma startsWith_prefix: "startsWith s pre \<longleftrightarrow> prefix pre s"
  by (simp add: startsWith_iff prefix_def)

lemma extractUrls_matchAll: "extractUrls t = matchAll t"
  by (simp add: extractUrls_def matchGlobal_def split: list.splits)

lemma no_urls_here: "extractUrls (str ''no urls here'') = []"
  by (simp add: extractUrls_def matchGlobal_def matchAt_def startsWith_def str_def)

subsection \<open>The cache invariant\<close>

lemma matchBody_nonempty: "matchBody xs = Some (m, rest) \<Longrightarrow> m \<noteq> []"
  by (auto simp: matchBody_def Let_def str_def split: if_splits)

lemma matchAt_nonempty: "matchAt xs = Some (m, rest) \<Longrightarrow> m \<noteq> []"
  by (auto simp: matchAt_def Let_def str_def split: if_splits option.splits list.splits)

lemma matchAll_nonempty: "m \<in> set (matchAll t) \<Longrightarrow> m \<noteq> []"
proof (induction t rule: matchAll.induct)
  case 1
  then show ?case by simp
next
  case (2 c cs)
  show ?case
  proof (cases "matchAt (c # cs)")
    case None
    with "2.prems" have "m \<in> set (matchAll cs)" by simp
    with None show ?thesis using "2.IH" by blast
  next
    case (Some x)
    obtain m' rest where x: "x = (m', rest)" by (cases x)
    with Some "2.prems" consider "m = m'" | "m \<in> set (matchAll rest)" by auto
    then show ?thesis
    proof cases
      case 1
      with Some x show ?thesis using matchAt_nonempty by blast
    next
      case 2
      with Some x show ?thesis using "2.IH" by blast
    qed
  qed
qed

lemma capture_hit:
  "extractUrls chunk \<noteq> [] \<Longrightarrow>
     capture now chunk g =
       g\<lparr>latestLoginUrl := Some (last (extractUrls chunk)), latestLoginUrlSeenAt := Some now\<rparr>"
  by (simp add: capture_def Let_def last_conv_nth)

lemma capture_miss: "extractUrls chunk = [] \<Longrightarrow> capture now chunk g = g"
  by (simp add: capture_def)

lemma capture_cacheInv: "cacheInv g \<Longrightarrow> cacheInv (capture now chunk g)"
proof (cases "extractUrls chunk = []")
  case True
  assume "cacheInv g"
  then show ?thesis by (simp add: capture_miss [OF True])
next
  case False
  then have "last (extractUrls chunk) \<in> set (matchAll chunk)"
    by (simp add: extractUrls_matchAll)
  then have "last (extractUrls chunk) \<noteq> []"
    by (rule matchAll_nonempty)
  then show ?thesis
    by (simp add: capture_hit [OF False] cacheInv_def)
qed

lemma step_cacheInv: "cacheInv g \<Longrightarrow> cacheInv (step ex token g ev)"
proof (cases "exitStatus g = None")
  case False
  assume "cacheInv g"
  with False show ?thesis by (simp add: step_def)
next
  case True
  assume inv: "cacheInv g"
  show ?thesis
  proof (cases ev)
    case (StdoutData chunk now)
    from inv have "cacheInv (g\<lparr>stdout := stdout g @ [chunk]\<rparr>)"
      by (simp add: cacheInv_def)
    then show ?thesis
      using True StdoutData by (simp add: step_def capture_cacheInv)
  next
    case (StderrData chunk now)
    from inv have "cacheInv (g\<lparr>stderr := stderr g @ [chunk]\<rparr>)"
      by (simp add: cacheInv_def)
    then show ?thesis
      using True StderrData by (simp add: step_def capture_cacheInv)
  next
    case (Request req)
    with inv True show ?thesis by (simp add: step_def cacheInv_def)
  next
    case (ChildExit code)
    with inv True show ?thesis
      by (simp add: step_def onChildExit_def consoleError_def cacheInv_def)
  qed
qed

lemma run_cacheInv: "cacheInv g \<Longrightarrow> cacheInv (run ex token g evs)"
  unfolding run_def by (induction evs arbitrary: g) (simp_all add: step_cacheInv)

lemma initial_cacheInv: "cacheInv initial"
  by (simp add: cacheInv_def initial_def startMcpRemote_def)

lemma captureAll_append:
  "captureAll (xs @ ys) g = captureAll ys (captureAll xs g)"
  by (induction xs g rule: captureAll.induct) simp_all

lemma login_chunk:
  "extractUrls (str ''Login at https://id.example/auth?state=1 please'')
     = [str ''https://id.example/auth?state=1'']"
  by (simp add: extractUrls_def matchGlobal_def matchAt_def matchBody_def startsWith_def
      str_def urlChar_def isSpace_def)

lemma two_urls_chunk:
  "extractUrls (str ''see https://a.example/x and https://b.example/y?q=1'')
     = [str ''https://a.example/x'', str ''https://b.example/y?q=1'']"
  by (simp add: extractUrls_def matchGlobal_def matchAt_def matchBody_def startsWith_def
      str_def urlChar_def isSpace_def)

lemma run_login_chunk:
  "run exactRouter (str ''s3cret'') initial
     [StdoutData (str ''no urls here'') (str ''2026-01-01T00:00:00.000Z''),
      StderrData (str ''Login at https://id.example/auth?state=1 please'')
        (str ''2026-01-01T00:00:05.000Z'')]
   = initial\<lparr>latestLoginUrl := Some (str ''https://id.example/auth?state=1''),
       latestLoginUrlSeenAt := Some (str ''2026-01-01T00:00:05.000Z''),
       stdout := [str ''no urls here''],
       stderr := [str ''Login at https://id.example/auth?state=1 please'']\<rparr>"
  by (simp add: run_def step_def initial_def startMcpRemote_def capture_hit capture_miss login_chunk no_urls_here)

lemma run_exited: "exitStatus g \<noteq> None \<Longrightarrow> run ex token g evs = g"
  unfolding run_def by (induction evs) (simp_all add: step_def)

lemma showCode_137: "showCode (Some 137) = str ''137''"
  by (simp add: showCode_def digits.simps [of 137] digits.simps [of 13] digits.simps [of "Suc 0"] str_def)

subsection \<open>The scraper against its specification\<close>

lemma specUrl_iff:
  "specUrl u \<longleftrightarrow>
     (\<exists>body. body \<noteq> [] \<and> list_all urlChar body
        \<and> (u = str ''http://'' @ body \<or> u = str ''https://'' @ body))"
proof
  assume "specUrl u"
  then consider
      (a) "startsWith u (str ''http://'')" "drop 7 u \<noteq> []" "list_all urlChar (drop 7 u)"
    | (b) "startsWith u (str ''https://'')" "drop 8 u \<noteq> []" "list_all urlChar (drop 8 u)"
    by (auto simp: specUrl_def)
  then show "\<exists>body. body \<noteq> [] \<and> list_all urlChar body
        \<and> (u = str ''http://'' @ body \<or> u = str ''https://'' @ body)"
  proof cases
    case a
    from startsWith_drop [OF a(1)] have "u = str ''http://'' @ drop 7 u"
      by (simp add: eval_nat_numeral)
    with a show ?thesis by blast
  next
    case b
    from startsWith_drop [OF b(1)] have "u = str ''https://'' @ drop 8 u"
      by (simp add: eval_nat_numeral)
    with b show ?thesis by blast
  qed
next
  assume "\<exists>body. body \<noteq> [] \<and> list_all urlChar body
        \<and> (u = str ''http://'' @ body \<or> u = str ''https://'' @ body)"
  then show "specUrl u"
    by (auto simp: specUrl_def startsWith_iff)
qed

lemma takeWhile_run:
  "list_all P body \<Longrightarrow> r = [] \<or> \<not> P (hd r) \<Longrightarrow>
     takeWhile P (body @ r) = body \<and> dropWhile P (body @ r) = r"
  by (cases r) (auto simp: list_all_iff)

lemma matchBody_iff:
  "matchBody xs = Some (b, r) \<longleftrightarrow>
     (\<exists>body. body \<noteq> [] \<and> list_all urlChar body \<and> b = str ''://'' @ body
        \<and> xs = b @ r \<and> (r = [] \<or> \<not> urlChar (hd r)))"
proof
  assume m: "matchBody xs = Some (b, r)"
  then have s: "startsWith xs (str ''://'')"
    and ne: "takeWhile urlChar (drop 3 xs) \<noteq> []"
    and b: "b = str ''://'' @ takeWhile urlChar (drop 3 xs)"
    and r: "r = dropWhile urlChar (drop 3 xs)"
    by (auto simp: matchBody_def Let_def split: if_splits)
  from startsWith_drop [OF s] have "xs = str ''://'' @ drop 3 xs"
    by (simp add: eval_nat_numeral)
  then have "xs = str ''://'' @ takeWhile urlChar (drop 3 xs) @ dropWhile urlChar (drop 3 xs)"
    by simp
  then have x: "xs = b @ r" using b r by simp
  have a: "list_all urlChar (takeWhile urlChar (drop 3 xs))"
    by (auto simp: list_all_iff dest: set_takeWhileD)
  have h: "r = [] \<or> \<not> urlChar (hd r)"
    unfolding r by (metis hd_dropWhile)
  from ne a b x h show "\<exists>body. body \<noteq> [] \<and> list_all urlChar body \<and> b = str ''://'' @ body
        \<and> xs = b @ r \<and> (r = [] \<or> \<not> urlChar (hd r))"
    by blast
next
  assume "\<exists>body. body \<noteq> [] \<and> list_all urlChar body \<and> b = str ''://'' @ body
        \<and> xs = b @ r \<and> (r = [] \<or> \<not> urlChar (hd r))"
  then obtain body where body: "body \<noteq> []" "list_all urlChar body"
    and b: "b = str ''://'' @ body" and x: "xs = b @ r" and h: "r = [] \<or> \<not> urlChar (hd r)"
    by blast
  have s: "startsWith xs (str ''://'')"
    by (auto simp: startsWith_iff x b)
  have d: "drop 3 xs = body @ r"
    by (simp add: x b)
  from takeWhile_run [OF body(2) h] body(1) show "matchBody xs = Some (b, r)"
    by (simp add: matchBody_def s d b)
qed


lemma matchBody_run:
  "body \<noteq> [] \<Longrightarrow> list_all urlChar body \<Longrightarrow> r = [] \<or> \<not> urlChar (hd r) \<Longrightarrow>
     matchBody (str ''://'' @ body @ r) = Some (str ''://'' @ body, r)"
  by (subst matchBody_iff) auto

lemma matchAt_iff:
  "matchAt xs = Some (u, r) \<longleftrightarrow>
     xs = u @ r \<and> specUrl u \<and> (r = [] \<or> \<not> urlChar (hd r))"
proof
  assume m: "matchAt xs = Some (u, r)"
  then have s: "startsWith xs (str ''http'')"
    by (simp add: matchAt_def split: if_splits)
  from startsWith_drop [OF s] have xs: "xs = str ''http'' @ drop 4 xs"
    by (simp add: eval_nat_numeral)
  from m s consider
      (with_s) b r' where "drop 4 xs = 0x73 # r'" "matchBody r' = Some (b, r)"
        "u = str ''https'' @ b"
    | (without_s) b where "matchBody (drop 4 xs) = Some (b, r)" "u = str ''http'' @ b"
    by (auto simp: matchAt_def Let_def split: list.splits if_splits option.splits)
  then show "xs = u @ r \<and> specUrl u \<and> (r = [] \<or> \<not> urlChar (hd r))"
  proof cases
    case with_s
    from with_s(2) obtain body where body: "body \<noteq> []" "list_all urlChar body"
      and b: "b = str ''://'' @ body" and r': "r' = b @ r" and h: "r = [] \<or> \<not> urlChar (hd r)"
      unfolding matchBody_iff by blast
    have u: "u = str ''https://'' @ body"
      by (simp add: with_s(3) b str_def)
    have "xs = str ''http'' @ 0x73 # r'"
      using xs with_s(1) by simp
    then have "xs = u @ r"
      by (simp add: u r' b str_def)
    moreover have "specUrl u"
      unfolding specUrl_iff using body u by blast
    ultimately show ?thesis using h by simp
  next
    case without_s
    from without_s(1) obtain body where body: "body \<noteq> []" "list_all urlChar body"
      and b: "b = str ''://'' @ body" and d: "drop 4 xs = b @ r"
      and h: "r = [] \<or> \<not> urlChar (hd r)"
      unfolding matchBody_iff by blast
    have u: "u = str ''http://'' @ body"
      by (simp add: without_s(2) b str_def)
    have "xs = str ''http'' @ b @ r"
      using xs d by simp
    then have "xs = u @ r"
      by (simp add: u b str_def)
    moreover have "specUrl u"
      unfolding specUrl_iff using body u by blast
    ultimately show ?thesis using h by simp
  qed
next
  assume a: "xs = u @ r \<and> specUrl u \<and> (r = [] \<or> \<not> urlChar (hd r))"
  then obtain body where body: "body \<noteq> []" "list_all urlChar body"
    and u: "u = str ''http://'' @ body \<or> u = str ''https://'' @ body"
    unfolding specUrl_iff by blast
  from a have h: "r = [] \<or> \<not> urlChar (hd r)" and x: "xs = u @ r" by simp_all
  note mb = matchBody_run [OF body h]
  from u show "matchAt xs = Some (u, r)"
  proof
    assume u: "u = str ''http://'' @ body"
    have "xs = str ''http'' @ (str ''://'' @ body @ r)"
      by (simp add: x u str_def)
    then show ?thesis
      using mb by (simp add: matchAt_def startsWith_def u str_def)
  next
    assume u: "u = str ''https://'' @ body"
    have "xs = str ''http'' @ 0x73 # (str ''://'' @ body @ r)"
      by (simp add: x u str_def)
    then show ?thesis
      using mb by (simp add: matchAt_def startsWith_def u str_def)
  qed
qed


lemma specUrlAt_iff: "specUrlAt xs \<longleftrightarrow> (\<exists>u r. xs = u @ r \<and> specUrl u)"
proof
  assume "specUrlAt xs"
  then obtain n where "specUrl (take n xs)"
    unfolding specUrlAt_def list_ex_iff by blast
  moreover have "xs = take n xs @ drop n xs" by simp
  ultimately show "\<exists>u r. xs = u @ r \<and> specUrl u" by blast
next
  assume "\<exists>u r. xs = u @ r \<and> specUrl u"
  then obtain u r where x: "xs = u @ r" and u: "specUrl u" by blast
  then have "length u < Suc (length xs)" and "specUrl (take (length u) xs)" by simp_all
  then show "specUrlAt xs"
    unfolding specUrlAt_def list_ex_iff by (metis atLeastLessThan_iff le0 set_upt)
qed

lemma specUrlAt_matchAt: "specUrlAt xs \<longleftrightarrow> matchAt xs \<noteq> None"
proof
  assume "specUrlAt xs"
  then obtain u r where x: "xs = u @ r" and u: "specUrl u"
    unfolding specUrlAt_iff by blast
  from u obtain body where body: "body \<noteq> []" "list_all urlChar body"
    and s: "u = str ''http://'' @ body \<or> u = str ''https://'' @ body"
    unfolding specUrl_iff by blast
  let ?u = "u @ takeWhile urlChar r" and ?r = "dropWhile urlChar r"
  have "list_all urlChar (body @ takeWhile urlChar r)"
    using body(2) by (auto simp: list_all_iff dest: set_takeWhileD)
  with body(1) s have "specUrl ?u"
    unfolding specUrl_iff by (metis append_assoc append_is_Nil_conv)
  moreover have "xs = ?u @ ?r" by (simp add: x)
  moreover have "?r = [] \<or> \<not> urlChar (hd ?r)" by (metis hd_dropWhile)
  ultimately have "matchAt xs = Some (?u, ?r)"
    unfolding matchAt_iff by blast
  then show "matchAt xs \<noteq> None" by simp
next
  assume "matchAt xs \<noteq> None"
  then obtain u r where "matchAt xs = Some (u, r)" by auto
  then show "specUrlAt xs"
    unfolding matchAt_iff specUrlAt_iff by blast
qed

lemma matchAll_skip:
  "(\<And>i. i < length gap \<Longrightarrow> matchAt (drop i (gap @ ys)) = None) \<Longrightarrow>
     matchAll (gap @ ys) = matchAll ys"
proof (induction gap)
  case Nil
  show ?case by simp
next
  case (Cons g gs)
  from Cons.prems [of 0] have "matchAt (g # gs @ ys) = None" by simp
  then have "matchAll ((g # gs) @ ys) = matchAll (gs @ ys)" by simp
  moreover have "matchAll (gs @ ys) = matchAll ys"
  proof (rule Cons.IH)
    fix i assume "i < length gs"
    then show "matchAt (drop i (gs @ ys)) = None"
      using Cons.prems [of "Suc i"] by simp
  qed
  ultimately show ?case by simp
qed

lemma matchAll_Nil_iff:
  "matchAll t = [] \<longleftrightarrow> (\<forall>i\<le>length t. matchAt (drop i t) = None)"
proof
  assume "\<forall>i\<le>length t. matchAt (drop i t) = None"
  then have "matchAll (t @ []) = matchAll []"
    by (intro matchAll_skip) simp
  then show "matchAll t = []" by simp
next
  show "matchAll t = [] \<Longrightarrow> \<forall>i\<le>length t. matchAt (drop i t) = None"
  proof (induction t rule: matchAll.induct)
    case 1
    show ?case by (simp add: matchAt_def startsWith_def str_def)
  next
    case (2 c cs)
    from "2.prems" have n: "matchAt (c # cs) = None" and e: "matchAll cs = []"
      by (auto split: option.splits)
    from n e have ih: "\<forall>i\<le>length cs. matchAt (drop i cs) = None"
      using "2.IH" by blast
    show ?case
    proof (intro allI impI)
      fix i assume "i \<le> length (c # cs)"
      then show "matchAt (drop i (c # cs)) = None"
        using n ih by (cases i) simp_all
    qed
  qed
qed

lemma matchAll_found:
  assumes "matchAt xs = Some (u, r)"
  shows "matchAll xs = u # matchAll r"
proof (cases xs)
  case Nil
  with assms show ?thesis by (simp add: matchAt_def startsWith_def str_def)
next
  case (Cons c cs)
  with assms show ?thesis by simp
qed

lemma matchAll_specUrl: "u \<in> set (matchAll t) \<Longrightarrow> specUrl u"
proof (induction t rule: matchAll.induct)
  case 1
  then show ?case by simp
next
  case (2 c cs)
  show ?case
  proof (cases "matchAt (c # cs)")
    case None
    with "2.prems" have "u \<in> set (matchAll cs)" by simp
    with None show ?thesis using "2.IH" by blast
  next
    case (Some x)
    obtain u' rest where x: "x = (u', rest)" by (cases x)
    with Some "2.prems" consider "u = u'" | "u \<in> set (matchAll rest)" by auto
    then show ?thesis
    proof cases
      case 1
      with Some x show ?thesis by (simp add: matchAt_iff)
    next
      case 2
      with Some x show ?thesis using "2.IH" by blast
    qed
  qed
qed

lemma not_specUrlAt: "\<not> specUrlAt xs \<longleftrightarrow> matchAt xs = None"
  by (simp only: specUrlAt_matchAt not_not)

lemma gap_see:
  "\<forall>i<length (str ''see ''). \<not> specUrlAt (drop i (str ''see '' @ str ''https://a.example/x''
      @ str '' and https://b.example/y?q=1''))"
proof (intro allI impI)
  fix i :: nat
  assume "i < length (str ''see '')"
  then have "i < 4" by simp
  then have "i = 0 \<or> i = 1 \<or> i = 2 \<or> i = 3" by arith
  then show "\<not> specUrlAt (drop i (str ''see '' @ str ''https://a.example/x''
      @ str '' and https://b.example/y?q=1''))"
    unfolding not_specUrlAt
    by (elim disjE) (simp_all add: matchAt_def startsWith_def str_def)
qed

subsection \<open>Path classifier\<close>

text \<open>
  C3. \<open>isOpenPath\<close> is a function of the path string alone: it is true exactly when the
  path is one of the three members of \<open>OPEN_PATHS_EXACT\<close>, or begins with \<open>/oauth/\<close>, or
  begins with \<open>/auth/\<close>, and false for every other path. The method and the
  Authorization header of the request have no part in it.
\<close>

theorem isOpenPath_characterised:
  "(isOpenPath p \<longleftrightarrow>
      p \<in> {str ''/oauth/callback'', str ''/auth/callback'', str ''/callback''}
      \<or> prefix (str ''/oauth/'') p \<or> prefix (str ''/auth/'') p)
   \<and> isOpenPath (path (req\<lparr>req_method := m, authorization := a\<rparr>)) = isOpenPath (path req)"
  by (simp add: isOpenPath_def OPEN_PATHS_EXACT_def startsWith_prefix)

theorem isOpenPath_characterised_witness:
  "isOpenPath (str ''/callback'') \<and> isOpenPath (str ''/oauth/start'') \<and> isOpenPath (str ''/auth/x'')
   \<and> \<not> isOpenPath (str ''/login-link'') \<and> \<not> isOpenPath (str ''/mcp'')
   \<and> \<not> isOpenPath (str ''/oauth'') \<and> \<not> isOpenPath (str ''/callback/'')"
  using isOpenPath_characterised [of "str ''/callback''"]
    isOpenPath_characterised [of "str ''/oauth/start''"]
    isOpenPath_characterised [of "str ''/auth/x''"]
    isOpenPath_characterised [of "str ''/login-link''"]
    isOpenPath_characterised [of "str ''/mcp''"]
    isOpenPath_characterised [of "str ''/oauth''"]
    isOpenPath_characterised [of "str ''/callback/''"]
  by (simp add: str_def)

subsection \<open>Open paths and the health routes\<close>

text \<open>
  C1, as stated, fails on the health path: \<open>isOpenPath\<close> is false for \<open>/healthz\<close> and for
  \<open>/healthz/\<close>, and a POST request for \<open>/healthz\<close> with no Authorization header is not
  taken by the health routes, reaches the auth middleware and is answered 401.
\<close>

theorem health_open_counterexample:
  "\<not> isOpenPath (str ''/healthz'') \<and> \<not> isOpenPath (str ''/healthz/'')
   \<and> respond exactRouter (str ''s3cret'') initial
        \<lparr>req_method = POST, path = str ''/healthz'', authorization = None\<rparr>
     = Json 401 [(str ''error'', JString (str ''Unauthorized''))]"
  by (simp add: isOpenPath_def OPEN_PATHS_EXACT_def startsWith_def respond_def getRoute_def
      authGate_def orDefault_def exactRouter_def str_def)

text \<open>
  C1, amended. For a path that is one of the exact callback paths or begins with \<open>/oauth/\<close>
  or \<open>/auth/\<close>, \<open>isOpenPath\<close> is true, the auth middleware calls \<open>next()\<close> and the
  gateway never answers 401, whatever the method and the Authorization header. The health
  paths are served by routes registered ahead of the auth middleware: a GET (or HEAD)
  request whose path the framework matches to the route \<open>/healthz\<close> or \<open>/healthz/\<close> is
  answered 200 with \<open>{ok: true}\<close>, whatever the Authorization header.
\<close>

theorem open_paths_never_401:
  "((p \<in> set OPEN_PATHS_EXACT \<or> startsWith p (str ''/oauth/'') \<or> startsWith p (str ''/auth/''))
      \<longrightarrow> isOpenPath p
        \<and> authGate token \<lparr>req_method = m, path = p, authorization = a\<rparr> = None
        \<and> (\<forall>body. respond ex token g \<lparr>req_method = m, path = p, authorization = a\<rparr>
               \<noteq> Json 401 body))
   \<and> (((m = GET \<or> m = HEAD)
        \<and> (route ex (str ''/healthz'') p \<or> route ex (str ''/healthz/'') p))
      \<longrightarrow> respond ex token g \<lparr>req_method = m, path = p, authorization = a\<rparr>
            = Json 200 [(str ''ok'', JBool True)])"
proof (intro conjI impI)
  assume o: "p \<in> set OPEN_PATHS_EXACT \<or> startsWith p (str ''/oauth/'') \<or> startsWith p (str ''/auth/'')"
  then show op: "isOpenPath p"
    by (auto simp: isOpenPath_def)
  then show gate: "authGate token \<lparr>req_method = m, path = p, authorization = a\<rparr> = None"
    by (simp add: authGate_def)
  show "\<forall>body. respond ex token g \<lparr>req_method = m, path = p, authorization = a\<rparr>
               \<noteq> Json 401 body"
    using gate by (simp add: respond_def loginLink_def)
next
  assume "(m = GET \<or> m = HEAD)
        \<and> (route ex (str ''/healthz'') p \<or> route ex (str ''/healthz/'') p)"
  then show "respond ex token g \<lparr>req_method = m, path = p, authorization = a\<rparr>
            = Json 200 [(str ''ok'', JBool True)]"
    by (auto simp: respond_def getRoute_def)
qed

theorem open_paths_never_401_witness:
  "isOpenPath (str ''/oauth/callback'')
   \<and> authGate (str ''s3cret'')
        \<lparr>req_method = GET, path = str ''/oauth/callback'', authorization = None\<rparr> = None
   \<and> respond exactRouter (str ''s3cret'') initial
        \<lparr>req_method = GET, path = str ''/oauth/callback'', authorization = None\<rparr>
       \<noteq> Json 401 [(str ''error'', JString (str ''Unauthorized''))]
   \<and> respond exactRouter (str ''s3cret'') initial
        \<lparr>req_method = GET, path = str ''/healthz/'', authorization = None\<rparr>
       = Json 200 [(str ''ok'', JBool True)]"
proof -
  have a: "str ''/oauth/callback'' \<in> set OPEN_PATHS_EXACT"
    by (simp add: OPEN_PATHS_EXACT_def)
  have b: "route exactRouter (str ''/healthz/'') (str ''/healthz/'')"
    by (simp add: exactRouter_def)
  show ?thesis
    using a b
      open_paths_never_401 [of "str ''/oauth/callback''" "str ''s3cret''" GET None exactRouter initial]
      open_paths_never_401 [of "str ''/healthz/''" "str ''s3cret''" GET None exactRouter initial]
    by simp
qed

subsection \<open>Auth gate\<close>

text \<open>
  C2. For a request whose path is not open, the auth middleware answers 401 with the body
  \<open>{error: "Unauthorized"}\<close> exactly when the Authorization header is not the string
  \<open>"Bearer " + token\<close>, code unit for code unit; it calls \<open>next()\<close> exactly when the
  header is that string. A request with no Authorization header is always answered 401.
  The same holds of the whole chain for every request that the health routes, which come
  before the middleware, do not take: with the exact header the request goes on to the
  \<open>/login-link\<close> handler or to a proxy.
\<close>

theorem authGate_closed_path:
  assumes "\<not> isOpenPath (path req)"
  shows "(authGate token req = Some (Json 401 [(str ''error'', JString (str ''Unauthorized''))])
            \<longleftrightarrow> authorization req \<noteq> Some (str ''Bearer '' @ token))
       \<and> (authGate token req = None \<longleftrightarrow> authorization req = Some (str ''Bearer '' @ token))
       \<and> (authorization req = None \<longrightarrow> authGate token req \<noteq> None)
       \<and> (\<not> getRoute ex (str ''/healthz'') req \<and> \<not> getRoute ex (str ''/healthz/'') req \<longrightarrow>
            (respond ex token g req = Json 401 [(str ''error'', JString (str ''Unauthorized''))]
               \<longleftrightarrow> authorization req \<noteq> Some (str ''Bearer '' @ token))
            \<and> (authorization req = Some (str ''Bearer '' @ token) \<longrightarrow>
                 respond ex token g req =
                   (if getRoute ex (str ''/login-link'') req then loginLink g
                    else Proxied (mount ex (str ''/mcp'') (path req)))))"
proof -
  have gate:
    "(authGate token req = Some (Json 401 [(str ''error'', JString (str ''Unauthorized''))])
            \<longleftrightarrow> authorization req \<noteq> Some (str ''Bearer '' @ token))
       \<and> (authGate token req = None \<longleftrightarrow> authorization req = Some (str ''Bearer '' @ token))
       \<and> (authorization req = None \<longrightarrow> authGate token req \<noteq> None)"
    using assms
    by (auto simp: authGate_def orDefault_def Let_def str_def split: option.splits)
  have other: "authGate token req = None
      \<or> authGate token req = Some (Json 401 [(str ''error'', JString (str ''Unauthorized''))])"
    by (simp add: authGate_def Let_def)
  have ll: "loginLink g \<noteq> Json 401 body" for body
    by (simp add: loginLink_def)
  have chain: "respond ex token g req =
      (case authGate token req of
         Some r \<Rightarrow> r
       | None \<Rightarrow>
           if getRoute ex (str ''/login-link'') req then loginLink g
           else Proxied (mount ex (str ''/mcp'') (path req)))"
    if "\<not> getRoute ex (str ''/healthz'') req" "\<not> getRoute ex (str ''/healthz/'') req"
    using that by (simp add: respond_def split: option.splits)
  show ?thesis
  proof (intro conjI impI)
    assume h: "\<not> getRoute ex (str ''/healthz'') req \<and> \<not> getRoute ex (str ''/healthz/'') req"
    then have c: "respond ex token g req =
      (case authGate token req of
         Some r \<Rightarrow> r
       | None \<Rightarrow>
           if getRoute ex (str ''/login-link'') req then loginLink g
           else Proxied (mount ex (str ''/mcp'') (path req)))"
      using chain by blast
    show "respond ex token g req = Json 401 [(str ''error'', JString (str ''Unauthorized''))]
               \<longleftrightarrow> authorization req \<noteq> Some (str ''Bearer '' @ token)"
      using other gate ll unfolding c by (auto split: option.splits)
    assume "authorization req = Some (str ''Bearer '' @ token)"
    with gate have "authGate token req = None" by blast
    then show "respond ex token g req =
                   (if getRoute ex (str ''/login-link'') req then loginLink g
                    else Proxied (mount ex (str ''/mcp'') (path req)))"
      unfolding c by simp
  qed (use gate in blast)+
qed

theorem authGate_closed_path_witness:
  "\<not> isOpenPath (str ''/mcp'')
   \<and> authGate (str ''s3cret'') \<lparr>req_method = POST, path = str ''/mcp'', authorization = None\<rparr>
       = Some (Json 401 [(str ''error'', JString (str ''Unauthorized''))])
   \<and> authGate (str ''s3cret'')
         \<lparr>req_method = POST, path = str ''/mcp'', authorization = Some (str ''bearer s3cret'')\<rparr>
       = Some (Json 401 [(str ''error'', JString (str ''Unauthorized''))])
   \<and> authGate (str ''s3cret'')
         \<lparr>req_method = POST, path = str ''/mcp'', authorization = Some (str ''Bearer s3cret '')\<rparr>
       = Some (Json 401 [(str ''error'', JString (str ''Unauthorized''))])
   \<and> authGate (str ''s3cret'')
         \<lparr>req_method = POST, path = str ''/mcp'', authorization = Some (str ''Bearer s3cret'')\<rparr>
       = None
   \<and> respond exactRouter (str ''s3cret'') initial
         \<lparr>req_method = POST, path = str ''/mcp'', authorization = Some (str ''Bearer s3cret'')\<rparr>
       = Proxied True
   \<and> respond exactRouter (str ''s3cret'') initial
         \<lparr>req_method = POST, path = str ''/mcp'', authorization = Some (str ''Basic s3cret'')\<rparr>
       = Json 401 [(str ''error'', JString (str ''Unauthorized''))]"
proof -
  have closed: "\<not> isOpenPath (str ''/mcp'')"
    by (simp add: isOpenPath_def OPEN_PATHS_EXACT_def startsWith_def str_def)
  have routes:
    "\<not> getRoute exactRouter (str ''/healthz'') \<lparr>req_method = POST, path = str ''/mcp'', authorization = a\<rparr>"
    "\<not> getRoute exactRouter (str ''/healthz/'') \<lparr>req_method = POST, path = str ''/mcp'', authorization = a\<rparr>"
    "\<not> getRoute exactRouter (str ''/login-link'') \<lparr>req_method = POST, path = str ''/mcp'', authorization = a\<rparr>"
    "mount exactRouter (str ''/mcp'') (str ''/mcp'')" for a
    by (simp_all add: getRoute_def exactRouter_def)
  show ?thesis
    using closed routes
      authGate_closed_path [of "\<lparr>req_method = POST, path = str ''/mcp'', authorization = None\<rparr>"
        "str ''s3cret''" exactRouter initial]
      authGate_closed_path [of "\<lparr>req_method = POST, path = str ''/mcp'',
        authorization = Some (str ''bearer s3cret'')\<rparr>" "str ''s3cret''" exactRouter initial]
      authGate_closed_path [of "\<lparr>req_method = POST, path = str ''/mcp'',
        authorization = Some (str ''Bearer s3cret '')\<rparr>" "str ''s3cret''" exactRouter initial]
      authGate_closed_path [of "\<lparr>req_method = POST, path = str ''/mcp'',
        authorization = Some (str ''Bearer s3cret'')\<rparr>" "str ''s3cret''" exactRouter initial]
      authGate_closed_path [of "\<lparr>req_method = POST, path = str ''/mcp'',
        authorization = Some (str ''Basic s3cret'')\<rparr>" "str ''s3cret''" exactRouter initial]
    by (simp add: str_def)
qed

subsection \<open>Login-link cache\<close>

text \<open>
  C10. A chunk in which \<open>extractUrls\<close> finds no URL leaves the state as it is: \<open>capture\<close>
  returns the state unchanged, and the handlers of both output streams leave
  \<open>latestLoginUrl\<close> and \<open>latestLoginUrlSeenAt\<close> as they were.
\<close>

theorem capture_no_url_unchanged:
  assumes "extractUrls chunk = []"
  shows "capture now chunk g = g
    \<and> latestLoginUrl (step ex token g (StdoutData chunk now)) = latestLoginUrl g
    \<and> latestLoginUrlSeenAt (step ex token g (StdoutData chunk now)) = latestLoginUrlSeenAt g
    \<and> latestLoginUrl (step ex token g (StderrData chunk now)) = latestLoginUrl g
    \<and> latestLoginUrlSeenAt (step ex token g (StderrData chunk now)) = latestLoginUrlSeenAt g"
  using assms by (simp add: capture_def step_def)

theorem capture_no_url_unchanged_witness:
  "extractUrls (str ''no urls here'') = []
   \<and> capture (str ''2026-01-01T00:00:00.000Z'') (str ''no urls here'')
        (initial\<lparr>latestLoginUrl := Some (str ''https://id.example/a''),
                 latestLoginUrlSeenAt := Some (str ''2025-12-31T23:59:59.000Z'')\<rparr>)
      = initial\<lparr>latestLoginUrl := Some (str ''https://id.example/a''),
                 latestLoginUrlSeenAt := Some (str ''2025-12-31T23:59:59.000Z'')\<rparr>"
  using capture_no_url_unchanged [OF no_urls_here] no_urls_here by simp

text \<open>
  C4. After a sequence of chunks has gone through \<open>capture\<close> in order, the cache holds the
  last URL of the last chunk in which \<open>extractUrls\<close> found a URL, with the clock reading
  of that chunk, and keeps what it held before when no chunk had one. In particular, after
  two chunks of which the second has a URL, the cache holds the last URL of the second.
\<close>

theorem capture_last_write_wins:
  "(let hits = filter (\<lambda>(chunk, now). extractUrls chunk \<noteq> []) chunks in
     latestLoginUrl (captureAll chunks g) =
       (if hits = [] then latestLoginUrl g
        else Some (last (extractUrls (fst (last hits)))))
     \<and> latestLoginUrlSeenAt (captureAll chunks g) =
       (if hits = [] then latestLoginUrlSeenAt g else Some (snd (last hits))))
   \<and> (extractUrls chunk2 \<noteq> [] \<longrightarrow>
        latestLoginUrl (capture now2 chunk2 (capture now1 chunk1 g))
          = Some (last (extractUrls chunk2)))"
proof
  show "let hits = filter (\<lambda>(chunk, now). extractUrls chunk \<noteq> []) chunks in
     latestLoginUrl (captureAll chunks g) =
       (if hits = [] then latestLoginUrl g
        else Some (last (extractUrls (fst (last hits)))))
     \<and> latestLoginUrlSeenAt (captureAll chunks g) =
       (if hits = [] then latestLoginUrlSeenAt g else Some (snd (last hits)))"
  proof (induction chunks rule: rev_induct)
    case Nil
    show ?case by simp
  next
    case (snoc x xs)
    obtain chunk now where x: "x = (chunk, now)" by (cases x)
    show ?case
    proof (cases "extractUrls chunk = []")
      case True
      with snoc x show ?thesis
        by (simp add: captureAll_append capture_miss Let_def)
    next
      case False
      then show ?thesis
        using x by (simp add: captureAll_append capture_hit Let_def)
    qed
  qed
next
  show "extractUrls chunk2 \<noteq> [] \<longrightarrow>
        latestLoginUrl (capture now2 chunk2 (capture now1 chunk1 g))
          = Some (last (extractUrls chunk2))"
    by (simp add: capture_hit)
qed

theorem capture_last_write_wins_witness:
  "latestLoginUrl
     (captureAll
        [(str ''Login at https://id.example/auth?state=1 please'', str ''2026-01-01T00:00:00.000Z''),
         (str ''see https://a.example/x and https://b.example/y?q=1'', str ''2026-01-01T00:00:05.000Z''),
         (str ''no urls here'', str ''2026-01-01T00:00:09.000Z'')]
        initial)
     = Some (str ''https://b.example/y?q=1'')
   \<and> latestLoginUrlSeenAt
     (captureAll
        [(str ''Login at https://id.example/auth?state=1 please'', str ''2026-01-01T00:00:00.000Z''),
         (str ''see https://a.example/x and https://b.example/y?q=1'', str ''2026-01-01T00:00:05.000Z''),
         (str ''no urls here'', str ''2026-01-01T00:00:09.000Z'')]
        initial)
     = Some (str ''2026-01-01T00:00:05.000Z'')
   \<and> extractUrls (str ''see https://a.example/x and https://b.example/y?q=1'') \<noteq> []
   \<and> latestLoginUrl
        (capture (str ''2026-01-01T00:00:05.000Z'')
           (str ''see https://a.example/x and https://b.example/y?q=1'')
           (capture (str ''2026-01-01T00:00:00.000Z'')
              (str ''Login at https://id.example/auth?state=1 please'') initial))
     = Some (str ''https://b.example/y?q=1'')"
  using capture_last_write_wins [of
        "[(str ''Login at https://id.example/auth?state=1 please'', str ''2026-01-01T00:00:00.000Z''),
         (str ''see https://a.example/x and https://b.example/y?q=1'', str ''2026-01-01T00:00:05.000Z''),
         (str ''no urls here'', str ''2026-01-01T00:00:09.000Z'')]" initial
        "str ''see https://a.example/x and https://b.example/y?q=1''"
        "str ''2026-01-01T00:00:05.000Z''" "str ''2026-01-01T00:00:00.000Z''"
        "str ''Login at https://id.example/auth?state=1 please''"]
  by (simp add: login_chunk two_urls_chunk no_urls_here)

text \<open>
  C9. \<open>latestLoginUrl\<close> is \<open>null\<close> exactly when \<open>latestLoginUrlSeenAt\<close> is: both start
  \<open>null\<close>, every event keeps the equivalence, so it holds in every state the process
  reaches; and whenever the \<open>/login-link\<close> handler answers 200 there, the body carries a
  \<open>login_url\<close> string and a \<open>seen_at\<close> string, never \<open>null\<close>.
\<close>

theorem cache_fields_set_together:
  "(latestLoginUrl initial = None \<and> latestLoginUrlSeenAt initial = None)
   \<and> (((latestLoginUrl g = None) = (latestLoginUrlSeenAt g = None)) \<longrightarrow>
        ((latestLoginUrl (step ex token g ev) = None)
           = (latestLoginUrlSeenAt (step ex token g ev) = None)))
   \<and> ((latestLoginUrl (run ex token initial evs) = None)
        = (latestLoginUrlSeenAt (run ex token initial evs) = None))
   \<and> (\<forall>body. loginLink (run ex token initial evs) = Json 200 body \<longrightarrow>
        (\<exists>u t. latestLoginUrl (run ex token initial evs) = Some u
             \<and> latestLoginUrlSeenAt (run ex token initial evs) = Some t
             \<and> body = [(str ''login_url'', JString u), (str ''seen_at'', JString t)]))"
proof (intro conjI)
  show "latestLoginUrl initial = None" "latestLoginUrlSeenAt initial = None"
    by (simp_all add: initial_def startMcpRemote_def)
next
  show "((latestLoginUrl g = None) = (latestLoginUrlSeenAt g = None)) \<longrightarrow>
        ((latestLoginUrl (step ex token g ev) = None)
           = (latestLoginUrlSeenAt (step ex token g ev) = None))"
  proof (cases ev)
    case (StdoutData chunk now)
    then show ?thesis
      by (cases "extractUrls chunk = []") (simp_all add: step_def capture_hit capture_miss)
  next
    case (StderrData chunk now)
    then show ?thesis
      by (cases "extractUrls chunk = []") (simp_all add: step_def capture_hit capture_miss)
  next
    case (Request req)
    then show ?thesis by (simp add: step_def)
  next
    case (ChildExit code)
    then show ?thesis by (simp add: step_def onChildExit_def consoleError_def)
  qed
next
  have inv: "cacheInv (run ex token initial evs)"
    by (rule run_cacheInv [OF initial_cacheInv])
  then show "(latestLoginUrl (run ex token initial evs) = None)
        = (latestLoginUrlSeenAt (run ex token initial evs) = None)"
    by (simp add: cacheInv_def)
  from inv show "\<forall>body. loginLink (run ex token initial evs) = Json 200 body \<longrightarrow>
        (\<exists>u t. latestLoginUrl (run ex token initial evs) = Some u
             \<and> latestLoginUrlSeenAt (run ex token initial evs) = Some t
             \<and> body = [(str ''login_url'', JString u), (str ''seen_at'', JString t)])"
    by (auto simp: cacheInv_def loginLink_def falsy_def toJson_def split: option.splits if_splits)
qed

theorem cache_fields_set_together_witness:
  "latestLoginUrl (run exactRouter (str ''s3cret'') initial
     [StdoutData (str ''no urls here'') (str ''2026-01-01T00:00:00.000Z''),
      StderrData (str ''Login at https://id.example/auth?state=1 please'')
        (str ''2026-01-01T00:00:05.000Z'')]) \<noteq> None
   \<and> latestLoginUrlSeenAt (run exactRouter (str ''s3cret'') initial
     [StdoutData (str ''no urls here'') (str ''2026-01-01T00:00:00.000Z''),
      StderrData (str ''Login at https://id.example/auth?state=1 please'')
        (str ''2026-01-01T00:00:05.000Z'')]) \<noteq> None
   \<and> loginLink (run exactRouter (str ''s3cret'') initial
     [StdoutData (str ''no urls here'') (str ''2026-01-01T00:00:00.000Z''),
      StderrData (str ''Login at https://id.example/auth?state=1 please'')
        (str ''2026-01-01T00:00:05.000Z'')])
     = Json 200 [(str ''login_url'', JString (str ''https://id.example/auth?state=1'')),
                 (str ''seen_at'', JString (str ''2026-01-01T00:00:05.000Z''))]"
  using cache_fields_set_together [of initial exactRouter "str ''s3cret''"
      "StdoutData (str ''no urls here'') (str ''2026-01-01T00:00:00.000Z'')"
      "[StdoutData (str ''no urls here'') (str ''2026-01-01T00:00:00.000Z''),
        StderrData (str ''Login at https://id.example/auth?state=1 please'')
          (str ''2026-01-01T00:00:05.000Z'')]"]
  unfolding run_login_chunk
  by (simp add: loginLink_def falsy_def toJson_def initial_def startMcpRemote_def str_def)

subsection \<open>Supervisor\<close>

text \<open>
  C6, as stated, fails on the status: when the child exits with code 0 the gateway exits
  with status 0, which is the child's code and is not a non-zero status.
\<close>

theorem child_exit_zero_counterexample:
  "exitStatus (step exactRouter (str ''s3cret'') initial (ChildExit (Some 0))) = Some 0"
  by (simp add: step_def onChildExit_def consoleError_def initial_def startMcpRemote_def)

text \<open>
  C6, amended. When the child exits while the gateway runs, whatever the code, the gateway
  writes the line \<open>mcp-remote exited with code <code>\<close> to standard error and exits with
  the child's own code, which is 0 exactly when the child's code is 0, or with 1 when the
  child has no code. From then on no event changes anything: no request is answered,
  nothing is captured. No child is started again: the number of children started is the
  same after the exit and after any further events, and no event ever changes it.
\<close>

theorem child_exit_ends_gateway:
  assumes "exitStatus g = None"
  shows "exitStatus (step ex token g (ChildExit code))
           = Some (case code of None \<Rightarrow> 1 | Some c \<Rightarrow> c)
       \<and> (exitStatus (step ex token g (ChildExit code)) = Some 0 \<longleftrightarrow> code = Some 0)
       \<and> stderr (step ex token g (ChildExit code))
           = stderr g @ [str ''mcp-remote exited with code '' @ showCode code @ [0x0A]]
       \<and> responses (step ex token g (ChildExit code)) = responses g
       \<and> run ex token (step ex token g (ChildExit code)) evs = step ex token g (ChildExit code)
       \<and> responses (run ex token g (ChildExit code # evs)) = responses g
       \<and> spawned (run ex token g (ChildExit code # evs)) = spawned g
       \<and> spawned (step ex token g ev) = spawned g"
proof -
  let ?g' = "step ex token g (ChildExit code)"
  have g': "?g' = onChildExit code g"
    using assms by (simp add: step_def)
  have ex: "exitStatus ?g' \<noteq> None"
    by (simp add: g' onChildExit_def)
  have stay: "run ex token ?g' evs = ?g'"
    by (rule run_exited [OF ex])
  have r: "run ex token g (ChildExit code # evs) = ?g'"
    using stay by (simp add: run_def)
  have "exitStatus ?g' = Some (case code of None \<Rightarrow> 1 | Some c \<Rightarrow> c)"
    by (simp add: g' onChildExit_def)
  then have zero: "exitStatus ?g' = Some 0 \<longleftrightarrow> code = Some 0"
    by (cases code) simp_all
  have same: "spawned (step ex token g ev) = spawned g"
    by (cases ev)
      (simp_all add: step_def capture_def Let_def onChildExit_def consoleError_def)
  show ?thesis
    unfolding r using stay zero same
    by (simp add: g' onChildExit_def consoleError_def)
qed

theorem child_exit_ends_gateway_witness:
  "exitStatus initial = None
   \<and> exitStatus (step exactRouter (str ''s3cret'') initial (ChildExit (Some 137))) = Some 137
   \<and> exitStatus (step exactRouter (str ''s3cret'') initial (ChildExit None)) = Some 1
   \<and> stderr (step exactRouter (str ''s3cret'') initial (ChildExit (Some 137)))
       = [str ''mcp-remote exited with code 137'' @ [0x0A]]
   \<and> stderr (step exactRouter (str ''s3cret'') initial (ChildExit None))
       = [str ''mcp-remote exited with code null'' @ [0x0A]]
   \<and> responses (run exactRouter (str ''s3cret'') initial
         [ChildExit (Some 137),
          Request \<lparr>req_method = GET, path = str ''/healthz'', authorization = None\<rparr>,
          StdoutData (str ''Login at https://id.example/auth?state=1 please'')
            (str ''2026-01-01T00:00:05.000Z'')]) = []
   \<and> spawned (run exactRouter (str ''s3cret'') initial
         [ChildExit (Some 137),
          Request \<lparr>req_method = GET, path = str ''/healthz'', authorization = None\<rparr>,
          StdoutData (str ''Login at https://id.example/auth?state=1 please'')
            (str ''2026-01-01T00:00:05.000Z'')]) = 1"
proof -
  have i: "exitStatus initial = None" by (simp add: initial_def startMcpRemote_def)
  show ?thesis
    using i child_exit_ends_gateway [OF i, of exactRouter "str ''s3cret''" "Some 137"
        "[Request \<lparr>req_method = GET, path = str ''/healthz'', authorization = None\<rparr>,
          StdoutData (str ''Login at https://id.example/auth?state=1 please'')
            (str ''2026-01-01T00:00:05.000Z'')]"]
      child_exit_ends_gateway [OF i, of exactRouter "str ''s3cret''" None "[]"]
    by (simp add: showCode_137 initial_def startMcpRemote_def) (simp add: showCode_def str_def)
qed

subsection \<open>The \<open>/login-link\<close> endpoint\<close>

text \<open>
  C8. A GET request for \<open>/login-link\<close> that carries the credential, in any state the
  process reaches: while no URL has been captured the answer is 404 with an \<open>error\<close>
  field and the \<open>hint\<close> that tells the caller to trigger a connection attempt and retry;
  once a URL has been captured the answer is 200 with that URL as \<open>login_url\<close> and the
  timestamp stored with it as \<open>seen_at\<close>. The hypotheses on the framework say that the
  route \<open>/login-link\<close> matches the path \<open>/login-link\<close> and that the health routes do not.
\<close>

theorem login_link_endpoint:
  assumes "req_method req = GET" and "path req = str ''/login-link''"
    and "authorization req = Some (str ''Bearer '' @ token)"
    and "route ex (str ''/login-link'') (str ''/login-link'')"
    and "\<not> route ex (str ''/healthz'') (str ''/login-link'')"
    and "\<not> route ex (str ''/healthz/'') (str ''/login-link'')"
  shows "(latestLoginUrl (run ex token initial evs) = None \<longrightarrow>
           respond ex token (run ex token initial evs) req =
             Json 404
               [(str ''error'', JString (str ''No login link captured yet.'')),
                (str ''hint'', JString (str
                   ''Trigger an MCP connection attempt (call /mcp with your static bearer token), then retry /login-link.''))])
       \<and> (\<forall>u. latestLoginUrl (run ex token initial evs) = Some u \<longrightarrow>
           (\<exists>t. latestLoginUrlSeenAt (run ex token initial evs) = Some t
              \<and> respond ex token (run ex token initial evs) req =
                  Json 200 [(str ''login_url'', JString u), (str ''seen_at'', JString t)]))"
proof -
  let ?g = "run ex token initial evs"
  have inv: "cacheInv ?g"
    by (rule run_cacheInv [OF initial_cacheInv])
  have gate: "authGate token req = None"
    using assms(3) by (simp add: authGate_def orDefault_def Let_def str_def)
  have r: "respond ex token ?g req = loginLink ?g"
    using assms gate by (simp add: respond_def getRoute_def)
  show ?thesis
    unfolding r using inv
    by (auto simp: cacheInv_def loginLink_def falsy_def toJson_def split: option.splits)
qed

theorem login_link_endpoint_witness:
  "respond exactRouter (str ''s3cret'') (run exactRouter (str ''s3cret'') initial [])
      \<lparr>req_method = GET, path = str ''/login-link'',
       authorization = Some (str ''Bearer s3cret'')\<rparr>
     = Json 404
         [(str ''error'', JString (str ''No login link captured yet.'')),
          (str ''hint'', JString (str
             ''Trigger an MCP connection attempt (call /mcp with your static bearer token), then retry /login-link.''))]
   \<and> respond exactRouter (str ''s3cret'')
        (run exactRouter (str ''s3cret'') initial
           [StdoutData (str ''no urls here'') (str ''2026-01-01T00:00:00.000Z''),
            StderrData (str ''Login at https://id.example/auth?state=1 please'')
              (str ''2026-01-01T00:00:05.000Z'')])
        \<lparr>req_method = GET, path = str ''/login-link'',
         authorization = Some (str ''Bearer s3cret'')\<rparr>
     = Json 200 [(str ''login_url'', JString (str ''https://id.example/auth?state=1'')),
                 (str ''seen_at'', JString (str ''2026-01-01T00:00:05.000Z''))]"
proof -
  let ?req = "\<lparr>req_method = GET, path = str ''/login-link'',
       authorization = Some (str ''Bearer s3cret'')\<rparr>"
  have a: "req_method ?req = GET" "path ?req = str ''/login-link''"
    "authorization ?req = Some (str ''Bearer '' @ str ''s3cret'')"
    by (simp_all add: str_def)
  have b: "route exactRouter (str ''/login-link'') (str ''/login-link'')"
    "\<not> route exactRouter (str ''/healthz'') (str ''/login-link'')"
    "\<not> route exactRouter (str ''/healthz/'') (str ''/login-link'')"
    by (simp_all add: exactRouter_def str_def)
  have e: "latestLoginUrl (run exactRouter (str ''s3cret'') initial []) = None"
    by (simp add: run_def initial_def startMcpRemote_def)
  show ?thesis
    using login_link_endpoint [OF a b, of "[]"] e
      login_link_endpoint [OF a b, of
        "[StdoutData (str ''no urls here'') (str ''2026-01-01T00:00:00.000Z''),
          StderrData (str ''Login at https://id.example/auth?state=1 please'')
            (str ''2026-01-01T00:00:05.000Z'')]"]
    unfolding run_login_chunk
    by (simp add: initial_def startMcpRemote_def)
qed

subsection \<open>Configuration\<close>

text \<open>
  C7, as stated, fails: the upstream endpoint URL is not a required setting. With
  \<open>PUBLIC_BASE_URL\<close> and \<open>STATIC_BEARER_TOKEN\<close> set and neither \<open>ROVO_MCP_URL\<close> nor
  \<open>ROVO_MCP_SSE_URL\<close> in the environment, loading the configuration raises nothing and the
  endpoint is the built-in default.
\<close>

theorem upstream_url_required_counterexample:
  "loadConfig
     [str ''PUBLIC_BASE_URL'' \<mapsto> str ''https://gw.example'',
      str ''STATIC_BEARER_TOKEN'' \<mapsto> str ''s3cret'']
   = Inr \<lparr>PUBLIC_BASE_URL = str ''https://gw.example'', STATIC_BEARER_TOKEN = str ''s3cret'',
          ROVO_MCP_URL = str ''https://mcp.atlassian.com/v1/mcp''\<rparr>"
  by (simp add: loadConfig_def requireEnv_def orElse_def orDefault_def str_def)

text \<open>
  C7, amended. Loading the configuration fails exactly when \<open>PUBLIC_BASE_URL\<close> is missing
  or empty, or else when \<open>STATIC_BEARER_TOKEN\<close> is; the error names that variable. When it
  succeeds, the upstream endpoint URL is \<open>ROVO_MCP_URL\<close> if that is set and not empty,
  else the legacy \<open>ROVO_MCP_SSE_URL\<close> if that is set and not empty, else the default
  \<open>https://mcp.atlassian.com/v1/mcp\<close>.
\<close>

theorem upstream_url_sources:
  "(loadConfig env = Inl e \<longleftrightarrow>
       (falsy (env (str ''PUBLIC_BASE_URL'')) \<and> e = MissingEnv (str ''PUBLIC_BASE_URL''))
     \<or> (\<not> falsy (env (str ''PUBLIC_BASE_URL'')) \<and> falsy (env (str ''STATIC_BEARER_TOKEN''))
          \<and> e = MissingEnv (str ''STATIC_BEARER_TOKEN'')))
   \<and> (loadConfig env = Inr c \<longrightarrow>
        ROVO_MCP_URL c =
          (if \<not> falsy (env (str ''ROVO_MCP_URL'')) then the (env (str ''ROVO_MCP_URL''))
           else if \<not> falsy (env (str ''ROVO_MCP_SSE_URL''))
             then the (env (str ''ROVO_MCP_SSE_URL''))
           else str ''https://mcp.atlassian.com/v1/mcp''))"
  by (auto simp: loadConfig_def requireEnv_def orElse_def orDefault_def falsy_def
      split: option.splits sum.splits if_splits)

theorem upstream_url_sources_witness:
  "loadConfig
     [str ''PUBLIC_BASE_URL'' \<mapsto> str ''https://gw.example'',
      str ''STATIC_BEARER_TOKEN'' \<mapsto> str ''s3cret'',
      str ''ROVO_MCP_SSE_URL'' \<mapsto> str ''https://mcp.atlassian.com/v1/sse'']
   = Inr \<lparr>PUBLIC_BASE_URL = str ''https://gw.example'', STATIC_BEARER_TOKEN = str ''s3cret'',
          ROVO_MCP_URL = str ''https://mcp.atlassian.com/v1/sse''\<rparr>
   \<and> ROVO_MCP_URL \<lparr>PUBLIC_BASE_URL = str ''https://gw.example'',
          STATIC_BEARER_TOKEN = str ''s3cret'',
          ROVO_MCP_URL = str ''https://mcp.atlassian.com/v1/sse''\<rparr>
       = str ''https://mcp.atlassian.com/v1/sse''
   \<and> loadConfig [str ''PUBLIC_BASE_URL'' \<mapsto> str ''https://gw.example'']
       = Inl (MissingEnv (str ''STATIC_BEARER_TOKEN''))"
proof -
  let ?env = "[str ''PUBLIC_BASE_URL'' \<mapsto> str ''https://gw.example'',
      str ''STATIC_BEARER_TOKEN'' \<mapsto> str ''s3cret'',
      str ''ROVO_MCP_SSE_URL'' \<mapsto> str ''https://mcp.atlassian.com/v1/sse'']"
  let ?c = "\<lparr>PUBLIC_BASE_URL = str ''https://gw.example'', STATIC_BEARER_TOKEN = str ''s3cret'',
          ROVO_MCP_URL = str ''https://mcp.atlassian.com/v1/sse''\<rparr>"
  have l: "loadConfig ?env = Inr ?c"
    by (simp add: loadConfig_def requireEnv_def orElse_def orDefault_def str_def)
  have f: "falsy (?env (str ''ROVO_MCP_URL''))" "\<not> falsy (?env (str ''ROVO_MCP_SSE_URL''))"
    by (simp_all add: falsy_def str_def)
  have m: "falsy ([str ''PUBLIC_BASE_URL'' \<mapsto> str ''https://gw.example''] (str ''STATIC_BEARER_TOKEN''))"
    "\<not> falsy ([str ''PUBLIC_BASE_URL'' \<mapsto> str ''https://gw.example''] (str ''PUBLIC_BASE_URL''))"
    by (simp_all add: falsy_def str_def)
  show ?thesis
    using l f m upstream_url_sources [of ?env _ ?c]
      upstream_url_sources [of "[str ''PUBLIC_BASE_URL'' \<mapsto> str ''https://gw.example'']"
        "MissingEnv (str ''STATIC_BEARER_TOKEN'')"]
    by simp
qed

subsection \<open>URL scraper\<close>

text \<open>
  C5. \<open>extractUrls\<close> is a function of the text alone: the pattern is made anew at each
  call, so the same text gives the same result every time. It returns the matches from
  left to right, without overlap, each as long as it can be: the result is empty exactly
  when no URL begins at any position of the text; and when no URL begins inside \<open>gap\<close>,
  \<open>u\<close> is a URL, and what follows \<open>u\<close> is the end of the text or a character that cannot
  continue a URL, the result on \<open>gap @ u @ rest\<close> is \<open>u\<close> followed by the result on
  \<open>rest\<close>. Every string returned begins with \<open>http://\<close> or \<open>https://\<close> and goes on with
  one or more characters that are neither white space nor one of the four closing
  delimiters. The two examples of the specification give the empty sequence and the two
  URLs in order.
\<close>

theorem extractUrls_scan:
  "(extractUrls t = [] \<longleftrightarrow> (\<forall>i\<le>length t. \<not> specUrlAt (drop i t)))
   \<and> ((\<forall>i<length gap. \<not> specUrlAt (drop i (gap @ u @ rest)))
        \<and> specUrl u \<and> (rest = [] \<or> \<not> urlChar (hd rest))
      \<longrightarrow> extractUrls (gap @ u @ rest) = u # extractUrls rest)
   \<and> (\<forall>v\<in>set (extractUrls t). specUrl v)
   \<and> extractUrls (str ''no urls here'') = []
   \<and> extractUrls (str ''see https://a.example/x and https://b.example/y?q=1'')
       = [str ''https://a.example/x'', str ''https://b.example/y?q=1'']"
proof (intro conjI impI)
  show "extractUrls t = [] \<longleftrightarrow> (\<forall>i\<le>length t. \<not> specUrlAt (drop i t))"
    by (simp only: extractUrls_matchAll matchAll_Nil_iff not_specUrlAt)
next
  assume a: "(\<forall>i<length gap. \<not> specUrlAt (drop i (gap @ u @ rest)))
        \<and> specUrl u \<and> (rest = [] \<or> \<not> urlChar (hd rest))"
  then have "matchAll (gap @ u @ rest) = matchAll (u @ rest)"
    by (intro matchAll_skip) (simp only: not_specUrlAt)
  moreover from a have "matchAt (u @ rest) = Some (u, rest)"
    by (simp add: matchAt_iff)
  then have "matchAll (u @ rest) = u # matchAll rest"
    by (rule matchAll_found)
  ultimately show "extractUrls (gap @ u @ rest) = u # extractUrls rest"
    by (simp add: extractUrls_matchAll)
next
  show "\<forall>v\<in>set (extractUrls t). specUrl v"
    by (simp add: extractUrls_matchAll matchAll_specUrl)
next
  show "extractUrls (str ''no urls here'') = []"
    by (rule no_urls_here)
next
  show "extractUrls (str ''see https://a.example/x and https://b.example/y?q=1'')
       = [str ''https://a.example/x'', str ''https://b.example/y?q=1'']"
    by (rule two_urls_chunk)
qed

theorem extractUrls_scan_witness:
  "specUrl (str ''https://a.example/x'')
   \<and> \<not> urlChar (hd (str '' and https://b.example/y?q=1''))
   \<and> extractUrls (str ''see '' @ str ''https://a.example/x'' @ str '' and https://b.example/y?q=1'')
       = str ''https://a.example/x'' # extractUrls (str '' and https://b.example/y?q=1'')
   \<and> extractUrls (str ''http:// x https://)a (http://b.c/d) httpss://x HTTP://e'') \<noteq> []
   \<and> specUrl (str ''http://b.c/d'')"
proof -
  have u: "specUrl (str ''https://a.example/x'')"
    by (simp add: specUrl_def startsWith_def urlChar_def isSpace_def str_def)
  have r: "\<not> urlChar (hd (str '' and https://b.example/y?q=1''))"
    by (simp add: urlChar_def isSpace_def str_def)
  have e: "extractUrls (str ''http:// x https://)a (http://b.c/d) httpss://x HTTP://e'')
      = [str ''http://b.c/d'']"
    by (simp add: extractUrls_def matchGlobal_def matchAt_def matchBody_def startsWith_def
        str_def urlChar_def isSpace_def)
  show ?thesis
    using gap_see u r
      extractUrls_scan [of "str ''http:// x https://)a (http://b.c/d) httpss://x HTTP://e''"
        "str ''see ''" "str ''https://a.example/x''" "str '' and https://b.example/y?q=1''"]
    unfolding e by simp
qed

end
